theory Spec2Isabelle
  imports Main "HOL-Library.Word"
begin

section \<open>Data model of \<^verbatim>\<open>server.go\<close>\<close>

text \<open>
  Go's \<^verbatim>\<open>int\<close> (on a 64-bit platform) and \<^verbatim>\<open>time.Duration\<close> are 64-bit two's
  complement integers: they are 64-bit words here, added with wrap-around and compared as
  signed values (\<open><s\<close>, \<open>\<le>s\<close>, \<open>sint\<close>). A \<^verbatim>\<open>time.Time\<close> is an instant on the time
  line, counted in nanoseconds from the zero \<^verbatim>\<open>Time\<close>; \<^verbatim>\<open>t.Add(d)\<close> moves it by the signed
  value of the duration and \<^verbatim>\<open>t.After(u)\<close> is \<open>u < t\<close>. The clock reading \<^verbatim>\<open>time.Now()\<close> is
  an argument of the operation that takes it.
\<close>

type_synonym go_int = "64 word"
type_synonym duration = "64 word"
type_synonym time = int

definition time_Add :: "time \<Rightarrow> duration \<Rightarrow> time" where
  "time_Add t d = t + sint d"

definition time_After :: "time \<Rightarrow> time \<Rightarrow> bool" where
  "time_After t u = (u < t)"

record ServerOptions =
  Weight :: go_int
  MaxFails :: go_int
  FailTimeout :: duration
  IsBackup :: bool

text \<open>
  The struct \<^verbatim>\<open>Server\<close>. Its field \<^verbatim>\<open>lb\<close>, the pointer to the owning balancer, is
  not a field of the record: the balancer is passed to each operation and returned by it.
\<close>

record 'u Server =
  opts :: ServerOptions
  index :: go_int
  isDown :: bool
  failCounter :: go_int
  failTimestamp :: time
  userData :: 'u

record 'u ServerGroup =
  srvList :: "'u Server list"
  currServerIdx :: go_int
  currServerWeight :: go_int

text \<open>
  Modelled from the spec: the struct \<^verbatim>\<open>LoadBalancer\<close>, whose declaration is not in
  \<^verbatim>\<open>server.go\<close>. The spec gives it one primary and one backup group and the counter
  \<^verbatim>\<open>primaryOnlineCount\<close>; \<^verbatim>\<open>server.go\<close> reads and writes the counter only. Its mutex
  and its event handler are seen through the calls made on them, below.
\<close>

record 'u LoadBalancer =
  primaryGroup :: "'u ServerGroup"
  backupGroup :: "'u ServerGroup"
  primaryOnlineCount :: go_int

text \<open>
  Modelled from the spec: the two event types, constants of the package that
  \<^verbatim>\<open>server.go\<close> uses and does not declare.
\<close>

datatype EventType = ServerUpEvent | ServerDownEvent

text \<open>
  What an operation does to the balancer beyond its fields, in the order of the calls:
  \<^verbatim>\<open>srv.lb.mtx.Lock()\<close>, \<^verbatim>\<open>srv.lb.mtx.Unlock()\<close> and
  \<^verbatim>\<open>srv.lb.raiseEvent(eventType, srv)\<close>. \<open>RaiseEvent\<close> carries the two arguments of the
  call; the server is the one \<^verbatim>\<open>srv\<close> points to when the call is made.
\<close>

datatype 'u Call = MtxLock | MtxUnlock | RaiseEvent EventType "'u Server"

section \<open>The operations\<close>

definition UserData :: "'u Server \<Rightarrow> 'u" where
  "UserData srv = userData srv"

text \<open>
  \<^verbatim>\<open>SetOnline\<close>: the balancer and the server the receiver points to go in, and come out
  as the method leaves them, with the calls made on the mutex and the event handler.
\<close>

definition SetOnline ::
  "'u LoadBalancer \<Rightarrow> 'u Server \<Rightarrow> 'u LoadBalancer \<times> 'u Server \<times> 'u Call list" where
  "SetOnline lb srv =
    (if MaxFails (opts srv) = 0 \<or> IsBackup (opts srv) then (lb, srv, [])
     else
       let srv1 = srv\<lparr>failCounter := 0\<rparr>;
           (lb2, srv2, notifyUp) =
             (if isDown srv1
              then (lb\<lparr>primaryOnlineCount := primaryOnlineCount lb + 1\<rparr>,
                    srv1\<lparr>isDown := False\<rparr>, True)
              else (lb, srv1, False))
       in (lb2, srv2,
           [MtxLock, MtxUnlock] @ (if notifyUp then [RaiseEvent ServerUpEvent srv2] else [])))"

text \<open>
  \<^verbatim>\<open>SetOffline\<close>, with the reading of the clock as \<open>now\<close>. The lines of the guarded
  block are the successive \<open>let\<close>s: the increment, the first-failure or expired-window
  branch, the threshold test.
\<close>

definition SetOffline ::
  "'u LoadBalancer \<Rightarrow> 'u Server \<Rightarrow> time \<Rightarrow> 'u LoadBalancer \<times> 'u Server \<times> 'u Call list" where
  "SetOffline lb srv now =
    (if MaxFails (opts srv) = 0 \<or> IsBackup (opts srv) then (lb, srv, [])
     else
       let (lb3, srv3, notifyDown) =
             (if \<not> isDown srv \<and> failCounter srv <s MaxFails (opts srv)
              then
                let srv1 = srv\<lparr>failCounter := failCounter srv + 1\<rparr>;
                    srv2 =
                      (if failCounter srv1 = 1
                       then srv1\<lparr>failTimestamp := time_Add now (FailTimeout (opts srv1))\<rparr>
                       else if time_After now (failTimestamp srv1)
                       then srv1\<lparr>failCounter := 1\<rparr>
                       else srv1)
                in if failCounter srv2 = MaxFails (opts srv2)
                   then (lb\<lparr>primaryOnlineCount := primaryOnlineCount lb - 1\<rparr>,
                         srv2\<lparr>isDown := True,
                              failTimestamp := time_Add now (FailTimeout (opts srv2))\<rparr>,
                         True)
                   else (lb, srv2, False)
              else (lb, srv, False))
       in (lb3, srv3,
           [MtxLock, MtxUnlock] @
           (if notifyDown then [RaiseEvent ServerDownEvent srv3] else [])))"

section \<open>Sequences of calls\<close>

text \<open>
  A caller reports outcomes one after the other: each request is a call of \<^verbatim>\<open>SetOnline\<close>
  or of \<^verbatim>\<open>SetOffline\<close>, the latter with the reading of the clock it makes.
\<close>

datatype Request = SetOnlineCall | SetOfflineCall time

fun do_call ::
  "'u LoadBalancer \<Rightarrow> 'u Server \<Rightarrow> Request \<Rightarrow> 'u LoadBalancer \<times> 'u Server \<times> 'u Call list" where
  "do_call lb srv SetOnlineCall = SetOnline lb srv"
| "do_call lb srv (SetOfflineCall now) = SetOffline lb srv now"

fun run_calls ::
  "'u LoadBalancer \<Rightarrow> 'u Server \<Rightarrow> Request list \<Rightarrow> 'u LoadBalancer \<times> 'u Server \<times> 'u Call list" where
  "run_calls lb srv [] = (lb, srv, [])"
| "run_calls lb srv (c # cs) =
    (case do_call lb srv c of
       (lb1, srv1, tr1) \<Rightarrow>
         (case run_calls lb1 srv1 cs of (lb2, srv2, tr2) \<Rightarrow> (lb2, srv2, tr1 @ tr2)))"

abbreviation lb_of :: "'u LoadBalancer \<times> 'u Server \<times> 'u Call list \<Rightarrow> 'u LoadBalancer" where
  "lb_of r \<equiv> fst r"

abbreviation srv_of :: "'u LoadBalancer \<times> 'u Server \<times> 'u Call list \<Rightarrow> 'u Server" where
  "srv_of r \<equiv> fst (snd r)"

abbreviation calls_of :: "'u LoadBalancer \<times> 'u Server \<times> 'u Call list \<Rightarrow> 'u Call list" where
  "calls_of r \<equiv> snd (snd r)"

fun is_RaiseEvent :: "'u Call \<Rightarrow> bool" where
  "is_RaiseEvent (RaiseEvent t s) = True"
| "is_RaiseEvent c = False"

section \<open>The health invariant\<close>

definition health_inv :: "'u Server \<Rightarrow> bool" where
  "health_inv srv \<longleftrightarrow>
     0 \<le>s failCounter srv \<and> failCounter srv \<le>s MaxFails (opts srv) \<and>
     (isDown srv \<longrightarrow> failCounter srv = MaxFails (opts srv))"

text \<open>
  Modelled from the spec: the server that \<^verbatim>\<open>Add\<close> stores (\<^verbatim>\<open>Add\<close> is not in
  \<^verbatim>\<open>server.go\<close>). It has the options, the index and the user data it is given, and it
  starts \<open>Up\<close> with no failure counted: the health fields have Go's zero values.
\<close>

definition newServer :: "ServerOptions \<Rightarrow> go_int \<Rightarrow> 'u \<Rightarrow> 'u Server" where
  "newServer so i u =
     \<lparr>opts = so, index = i, isDown = False, failCounter = 0, failTimestamp = 0,
      userData = u\<rparr>"

section \<open>Servers inside the balancer\<close>

text \<open>
  Modelled from the spec: a \<^verbatim>\<open>*Server\<close> points to an element of the list of the
  primary or of the backup group of its balancer (\<^verbatim>\<open>Add\<close> and \<^verbatim>\<open>Next\<close>, which make the
  pointers, are not in \<^verbatim>\<open>server.go\<close>). A call through the pointer reads the element, runs
  the method on it and on the balancer, and leaves the element as the method left it.
\<close>

datatype SrvRef = PrimaryRef nat | BackupRef nat

fun deref :: "'u LoadBalancer \<Rightarrow> SrvRef \<Rightarrow> 'u Server option" where
  "deref lb (PrimaryRef i) =
     (if i < length (srvList (primaryGroup lb)) then Some (srvList (primaryGroup lb) ! i)
      else None)"
| "deref lb (BackupRef i) =
     (if i < length (srvList (backupGroup lb)) then Some (srvList (backupGroup lb) ! i)
      else None)"

fun assign :: "'u LoadBalancer \<Rightarrow> SrvRef \<Rightarrow> 'u Server \<Rightarrow> 'u LoadBalancer" where
  "assign lb (PrimaryRef i) s =
     lb\<lparr>primaryGroup := (primaryGroup lb)\<lparr>srvList := (srvList (primaryGroup lb))[i := s]\<rparr>\<rparr>"
| "assign lb (BackupRef i) s =
     lb\<lparr>backupGroup := (backupGroup lb)\<lparr>srvList := (srvList (backupGroup lb))[i := s]\<rparr>\<rparr>"

definition call_at ::
  "'u LoadBalancer \<Rightarrow> SrvRef \<Rightarrow> Request \<Rightarrow> ('u LoadBalancer \<times> 'u Call list) option" where
  "call_at lb r c =
     (case deref lb r of
        None \<Rightarrow> None
      | Some srv \<Rightarrow> (case do_call lb srv c of (lb1, srv1, tr) \<Rightarrow> Some (assign lb1 r srv1, tr)))"

definition onlinePrimaries :: "'u LoadBalancer \<Rightarrow> nat" where
  "onlinePrimaries lb = length (filter (\<lambda>s. \<not> isDown s) (srvList (primaryGroup lb)))"

definition count_inv :: "'u LoadBalancer \<Rightarrow> bool" where
  "count_inv lb \<longleftrightarrow> sint (primaryOnlineCount lb) = int (onlinePrimaries lb)"

text \<open>
  Modelled from the spec: \<^verbatim>\<open>Add\<close> appends a server to the primary or to the backup group
  according to \<^verbatim>\<open>IsBackup\<close>.
\<close>

definition groups_by_flag :: "'u LoadBalancer \<Rightarrow> bool" where
  "groups_by_flag lb \<longleftrightarrow>
     (\<forall>s \<in> set (srvList (primaryGroup lb)). \<not> IsBackup (opts s)) \<and>
     (\<forall>s \<in> set (srvList (backupGroup lb)). IsBackup (opts s))"

section \<open>Examples\<close>

text \<open>
  A balancer with one primary and one backup server; the primary is marked \<open>Down\<close> by
  three failures that follow each other within ten nanoseconds.
\<close>

definition ex_opts :: ServerOptions where
  "ex_opts = \<lparr>Weight = 1, MaxFails = 3, FailTimeout = 10, IsBackup = False\<rparr>"

definition ex_srv :: "string Server" where
  "ex_srv = newServer ex_opts 0 ''http://a''"

definition ex_backup :: "string Server" where
  "ex_backup = newServer (ex_opts\<lparr>IsBackup := True\<rparr>) 0 ''http://b''"

definition ex_lb :: "string LoadBalancer" where
  "ex_lb =
     \<lparr>primaryGroup = \<lparr>srvList = [ex_srv], currServerIdx = 0, currServerWeight = 0\<rparr>,
      backupGroup = \<lparr>srvList = [ex_backup], currServerIdx = 0, currServerWeight = 0\<rparr>,
      primaryOnlineCount = 1\<rparr>"

text \<open>
  The same primary server after a first failure at time 1, after a second one at time 3,
  and once the third has marked it \<open>Down\<close> at time 5.
\<close>

definition ex_one :: "string Server" where
  "ex_one = ex_srv\<lparr>failCounter := 1, failTimestamp := 11\<rparr>"

definition ex_two :: "string Server" where
  "ex_two = ex_srv\<lparr>failCounter := 2, failTimestamp := 11\<rparr>"

definition ex_down :: "string Server" where
  "ex_down = ex_srv\<lparr>isDown := True, failCounter := 3, failTimestamp := 15\<rparr>"

definition ex_lb_down :: "string LoadBalancer" where
  "ex_lb_down =
     \<lparr>primaryGroup = \<lparr>srvList = [ex_down], currServerIdx = 0, currServerWeight = 0\<rparr>,
      backupGroup = \<lparr>srvList = [ex_backup], currServerIdx = 0, currServerWeight = 0\<rparr>,
      primaryOnlineCount = 0\<rparr>"

text \<open>The balancer between the second failure and the third.\<close>

definition ex_lb_two :: "string LoadBalancer" where
  "ex_lb_two =
     \<lparr>primaryGroup = \<lparr>srvList = [ex_two], currServerIdx = 0, currServerWeight = 0\<rparr>,
      backupGroup = \<lparr>srvList = [ex_backup], currServerIdx = 0, currServerWeight = 0\<rparr>,
      primaryOnlineCount = 1\<rparr>"

lemmas ex_defs =
  ex_opts_def ex_srv_def ex_backup_def ex_lb_def ex_one_def ex_two_def ex_down_def
  ex_lb_down_def ex_lb_two_def newServer_def

section \<open>Arithmetic of Go's \<^verbatim>\<open>int\<close>\<close>

lemma sless_add1: "a <s (b::go_int) \<Longrightarrow> sint (a + 1) = sint a + 1"
proof -
  assume "a <s b"
  then have "sint a < sint b" by (simp add: word_sless_alt)
  moreover have "sint b < 2 ^ 63" using sint_lt [of b] by simp
  moreover have "- (2 ^ 63) \<le> sint a" using sint_ge [of a] by simp
  ultimately show ?thesis
    by (simp add: sint_word_ariths signed_take_bit_int_eq_self)
qed

lemma one_sle_nonzero: "1 \<le>s (m::go_int) \<Longrightarrow> m \<noteq> 0"
  by (auto simp: word_sle_eq)

section \<open>\<^verbatim>\<open>SetOnline\<close> on a primary server\<close>

text \<open>
  Claim C4. On a primary server with \<open>maxFails \<ge> 1\<close>, \<^verbatim>\<open>SetOnline\<close> leaves \<open>failCounter\<close> at 0
  whatever the state was. If the server was \<open>Down\<close>, it becomes \<open>Up\<close>, the balancer's
  \<open>primaryOnlineCount\<close> grows by one, nothing else changes, and one \<open>ServerUpEvent\<close> is
  raised, after the mutex has been unlocked. If the server was \<open>Up\<close>, nothing but
  \<open>failCounter\<close> changes and no event is raised.
\<close>

theorem SetOnline_primary:
  assumes "\<not> IsBackup (opts srv)" and "1 \<le>s MaxFails (opts srv)"
  shows "failCounter (srv_of (SetOnline lb srv)) = 0 \<and>
    (isDown srv \<longrightarrow>
       srv_of (SetOnline lb srv) = srv\<lparr>failCounter := 0, isDown := False\<rparr> \<and>
       lb_of (SetOnline lb srv) = lb\<lparr>primaryOnlineCount := primaryOnlineCount lb + 1\<rparr> \<and>
       calls_of (SetOnline lb srv) =
         [MtxLock, MtxUnlock, RaiseEvent ServerUpEvent (srv_of (SetOnline lb srv))]) \<and>
    (\<not> isDown srv \<longrightarrow>
       srv_of (SetOnline lb srv) = srv\<lparr>failCounter := 0\<rparr> \<and>
       lb_of (SetOnline lb srv) = lb \<and>
       calls_of (SetOnline lb srv) = [MtxLock, MtxUnlock])"
  using assms one_sle_nonzero [of "MaxFails (opts srv)"]
  by (simp add: SetOnline_def Let_def)

theorem SetOnline_primary_witness:
  "\<not> IsBackup (opts ex_down) \<and> 1 \<le>s MaxFails (opts ex_down) \<and> isDown ex_down \<and>
   srv_of (SetOnline ex_lb_down ex_down) = ex_srv\<lparr>failTimestamp := 15\<rparr> \<and>
   lb_of (SetOnline ex_lb_down ex_down) = ex_lb_down\<lparr>primaryOnlineCount := 1\<rparr> \<and>
   calls_of (SetOnline ex_lb_down ex_down) =
     [MtxLock, MtxUnlock, RaiseEvent ServerUpEvent (ex_srv\<lparr>failTimestamp := 15\<rparr>)] \<and>
   \<not> isDown (ex_srv\<lparr>failCounter := 2\<rparr>) \<and>
   SetOnline ex_lb (ex_srv\<lparr>failCounter := 2\<rparr>) = (ex_lb, ex_srv, [MtxLock, MtxUnlock])"
proof -
  have b: "\<not> IsBackup (opts ex_down)" and m: "1 \<le>s MaxFails (opts ex_down)"
    by (simp_all add: ex_defs word_sle_eq)
  have b': "\<not> IsBackup (opts (ex_srv\<lparr>failCounter := 2\<rparr>))"
    and m': "1 \<le>s MaxFails (opts (ex_srv\<lparr>failCounter := 2\<rparr>))"
    by (simp_all add: ex_defs word_sle_eq)
  have d: "isDown ex_down" and u: "\<not> isDown (ex_srv\<lparr>failCounter := 2\<rparr>)"
    by (simp_all add: ex_defs)
  show ?thesis
    using SetOnline_primary [OF b m, of ex_lb_down] SetOnline_primary [OF b' m', of ex_lb] b m d u
    by (simp add: ex_defs prod_eq_iff)
qed

section \<open>Servers without health tracking\<close>

lemma do_call_disabled:
  "MaxFails (opts srv) = 0 \<or> IsBackup (opts srv) \<Longrightarrow> do_call lb srv c = (lb, srv, [])"
  by (cases c) (simp_all add: SetOnline_def SetOffline_def)

lemma run_calls_disabled:
  "MaxFails (opts srv) = 0 \<or> IsBackup (opts srv) \<Longrightarrow> run_calls lb srv cs = (lb, srv, [])"
  by (induction cs) (simp_all add: do_call_disabled)

lemma assign_same: "deref lb r = Some srv \<Longrightarrow> assign lb r srv = lb"
  by (cases r) (auto split: if_splits)

text \<open>
  Claim C7. On a server with \<open>maxFails = 0\<close> and on a backup server, \<^verbatim>\<open>SetOnline\<close> and
  \<^verbatim>\<open>SetOffline\<close> return at once: the server and the balancer are as they were, the mutex
  is not touched and no event is raised. So it is after any sequence of calls, and a call
  through a pointer into the balancer leaves the whole balancer as it was. In particular
  no number of \<^verbatim>\<open>SetOffline\<close> calls marks such a server \<open>Down\<close>.
\<close>

theorem disabled_or_backup_unchanged:
  assumes "MaxFails (opts srv) = 0 \<or> IsBackup (opts srv)"
  shows "SetOnline lb srv = (lb, srv, []) \<and>
    SetOffline lb srv now = (lb, srv, []) \<and>
    run_calls lb srv cs = (lb, srv, []) \<and>
    isDown (srv_of (run_calls lb srv (map SetOfflineCall nows))) = isDown srv \<and>
    (deref lb r = Some srv \<longrightarrow> call_at lb r c = Some (lb, []))"
  using assms
  by (simp add: run_calls_disabled do_call_disabled call_at_def assign_same
      SetOnline_def SetOffline_def)

theorem disabled_or_backup_unchanged_witness:
  "MaxFails (opts (newServer (ex_opts\<lparr>MaxFails := 0\<rparr>) 0 ''http://c'')) = 0 \<and>
   run_calls ex_lb (newServer (ex_opts\<lparr>MaxFails := 0\<rparr>) 0 ''http://c'')
     [SetOfflineCall 1, SetOfflineCall 2, SetOfflineCall 3, SetOnlineCall] =
     (ex_lb, newServer (ex_opts\<lparr>MaxFails := 0\<rparr>) 0 ''http://c'', []) \<and>
   IsBackup (opts ex_backup) \<and>
   SetOffline ex_lb ex_backup 7 = (ex_lb, ex_backup, []) \<and>
   SetOnline ex_lb ex_backup = (ex_lb, ex_backup, []) \<and>
   deref ex_lb (BackupRef 0) = Some ex_backup \<and>
   call_at ex_lb (BackupRef 0) (SetOfflineCall 7) = Some (ex_lb, [])"
proof -
  have z: "MaxFails (opts (newServer (ex_opts\<lparr>MaxFails := 0\<rparr>) 0 ''http://c'')) = 0"
    by (simp add: ex_defs)
  have k: "IsBackup (opts ex_backup)"
    by (simp add: ex_defs)
  have d: "deref ex_lb (BackupRef 0) = Some ex_backup"
    by (simp add: ex_lb_def)
  from z have z': "MaxFails (opts (newServer (ex_opts\<lparr>MaxFails := 0\<rparr>) 0 ''http://c'')) = 0 \<or>
      IsBackup (opts (newServer (ex_opts\<lparr>MaxFails := 0\<rparr>) 0 ''http://c''))" ..
  from k have k': "MaxFails (opts ex_backup) = 0 \<or> IsBackup (opts ex_backup)" ..
  show ?thesis
    using disabled_or_backup_unchanged [OF z', of ex_lb _
        "[SetOfflineCall 1, SetOfflineCall 2, SetOfflineCall 3, SetOnlineCall]"]
      disabled_or_backup_unchanged [OF k', of ex_lb 7 _ _ "BackupRef 0" "SetOfflineCall 7"] z k d
    by simp
qed

section \<open>What the calls never change\<close>

lemma do_call_frame:
  "\<exists>d f t p tr. do_call lb srv c =
     (lb\<lparr>primaryOnlineCount := p\<rparr>, srv\<lparr>isDown := d, failCounter := f, failTimestamp := t\<rparr>, tr)"
proof (cases c)
  case SetOnlineCall
  have "SetOnline lb srv = (lb\<lparr>primaryOnlineCount := primaryOnlineCount (lb_of (SetOnline lb srv))\<rparr>,
      srv\<lparr>isDown := isDown (srv_of (SetOnline lb srv)),
          failCounter := failCounter (srv_of (SetOnline lb srv)),
          failTimestamp := failTimestamp (srv_of (SetOnline lb srv))\<rparr>,
      calls_of (SetOnline lb srv))"
    by (simp add: SetOnline_def Let_def)
  with SetOnlineCall show ?thesis by (metis do_call.simps(1))
next
  case (SetOfflineCall now)
  have "SetOffline lb srv now =
     (lb\<lparr>primaryOnlineCount := primaryOnlineCount (lb_of (SetOffline lb srv now))\<rparr>,
      srv\<lparr>isDown := isDown (srv_of (SetOffline lb srv now)),
          failCounter := failCounter (srv_of (SetOffline lb srv now)),
          failTimestamp := failTimestamp (srv_of (SetOffline lb srv now))\<rparr>,
      calls_of (SetOffline lb srv now))"
    by (simp add: SetOffline_def Let_def)
  with SetOfflineCall show ?thesis by (metis do_call.simps(2))
qed

lemma run_calls_frame:
  "\<exists>d f t p tr. run_calls lb srv cs =
     (lb\<lparr>primaryOnlineCount := p\<rparr>, srv\<lparr>isDown := d, failCounter := f, failTimestamp := t\<rparr>, tr)"
proof (induction cs arbitrary: lb srv)
  case Nil
  have "run_calls lb srv [] = (lb\<lparr>primaryOnlineCount := primaryOnlineCount lb\<rparr>,
      srv\<lparr>isDown := isDown srv, failCounter := failCounter srv,
          failTimestamp := failTimestamp srv\<rparr>, [])"
    by simp
  then show ?case by blast
next
  case (Cons c cs)
  obtain d f t p tr where 1: "do_call lb srv c =
     (lb\<lparr>primaryOnlineCount := p\<rparr>, srv\<lparr>isDown := d, failCounter := f, failTimestamp := t\<rparr>, tr)"
    using do_call_frame by blast
  obtain d' f' t' p' tr' where 2: "run_calls (lb\<lparr>primaryOnlineCount := p\<rparr>)
      (srv\<lparr>isDown := d, failCounter := f, failTimestamp := t\<rparr>) cs =
     (lb\<lparr>primaryOnlineCount := p, primaryOnlineCount := p'\<rparr>,
      srv\<lparr>isDown := d, failCounter := f, failTimestamp := t,
          isDown := d', failCounter := f', failTimestamp := t'\<rparr>, tr')"
    using Cons.IH by blast
  have "run_calls lb srv (c # cs) =
     (lb\<lparr>primaryOnlineCount := p'\<rparr>,
      srv\<lparr>isDown := d', failCounter := f', failTimestamp := t'\<rparr>, tr @ tr')"
    using 1 2 by simp
  then show ?case by blast
qed

text \<open>
  Claim C9. Whatever the sequence of \<^verbatim>\<open>SetOnline\<close> and \<^verbatim>\<open>SetOffline\<close> calls, the server
  keeps its options, its index and its user data, and \<^verbatim>\<open>UserData\<close> returns what it
  returned before, which for a server made by \<^verbatim>\<open>Add\<close> is the value attached then. The
  server differs from the one before the calls in \<open>isDown\<close>, \<open>failCounter\<close> and
  \<open>failTimestamp\<close> at most, and the balancer in \<open>primaryOnlineCount\<close> at most.
\<close>

theorem calls_keep_configuration:
  "opts (srv_of (run_calls lb srv cs)) = opts srv \<and>
   index (srv_of (run_calls lb srv cs)) = index srv \<and>
   userData (srv_of (run_calls lb srv cs)) = userData srv \<and>
   UserData (srv_of (run_calls lb srv cs)) = UserData srv \<and>
   UserData (srv_of (run_calls lb (newServer so i u) cs)) = u \<and>
   srv_of (run_calls lb srv cs) =
     srv\<lparr>isDown := isDown (srv_of (run_calls lb srv cs)),
         failCounter := failCounter (srv_of (run_calls lb srv cs)),
         failTimestamp := failTimestamp (srv_of (run_calls lb srv cs))\<rparr> \<and>
   lb_of (run_calls lb srv cs) =
     lb\<lparr>primaryOnlineCount := primaryOnlineCount (lb_of (run_calls lb srv cs))\<rparr>"
proof -
  obtain d f t p tr where "run_calls lb srv cs =
     (lb\<lparr>primaryOnlineCount := p\<rparr>, srv\<lparr>isDown := d, failCounter := f, failTimestamp := t\<rparr>, tr)"
    using run_calls_frame by blast
  moreover obtain d' f' t' p' tr' where "run_calls lb (newServer so i u) cs =
     (lb\<lparr>primaryOnlineCount := p'\<rparr>,
      (newServer so i u)\<lparr>isDown := d', failCounter := f', failTimestamp := t'\<rparr>, tr')"
    using run_calls_frame by blast
  ultimately show ?thesis
    by (simp add: UserData_def newServer_def)
qed

section \<open>The health invariant is kept\<close>

lemma inc_bounds:
  assumes "0 \<le>s a" and "a <s (m::go_int)"
  shows "0 \<le>s a + 1" and "a + 1 \<le>s m" and "1 \<le>s m" and "0 \<le>s m"
  using sless_add1 [OF assms(2)] assms by (simp_all add: word_sle_eq word_sless_alt)

lemma health_inv_SetOnline: "health_inv srv \<Longrightarrow> health_inv (srv_of (SetOnline lb srv))"
proof -
  assume h: "health_inv srv"
  then have "0 \<le>s MaxFails (opts srv)"
    by (auto simp: health_inv_def word_sle_eq)
  with h show ?thesis
    by (simp add: health_inv_def SetOnline_def Let_def)
qed

lemma health_inv_SetOffline:
  "health_inv srv \<Longrightarrow> health_inv (srv_of (SetOffline lb srv now))"
proof -
  assume h: "health_inv srv"
  show ?thesis
  proof (cases "\<not> isDown srv \<and> failCounter srv <s MaxFails (opts srv)")
    case False
    with h show ?thesis by (auto simp: SetOffline_def Let_def)
  next
    case True
    from h have "0 \<le>s failCounter srv" by (simp add: health_inv_def)
    note b = inc_bounds [OF this conjunct2 [OF True]]
    have z: "(0::go_int) \<le>s 1" by (simp add: word_sle_eq)
    from h True b z show ?thesis
      by (simp add: health_inv_def SetOffline_def Let_def)
  qed
qed

lemma health_inv_do_call: "health_inv srv \<Longrightarrow> health_inv (srv_of (do_call lb srv c))"
  by (cases c) (simp_all add: health_inv_SetOnline health_inv_SetOffline)

lemma health_inv_run_calls: "health_inv srv \<Longrightarrow> health_inv (srv_of (run_calls lb srv cs))"
proof (induction cs arbitrary: lb srv)
  case Nil
  then show ?case by simp
next
  case (Cons c cs)
  obtain lb1 srv1 tr1 where 1: "do_call lb srv c = (lb1, srv1, tr1)"
    by (cases "do_call lb srv c") auto
  with Cons.prems have "health_inv srv1"
    using health_inv_do_call [of srv lb c] by simp
  then have "health_inv (srv_of (run_calls lb1 srv1 cs))" by (rule Cons.IH)
  with 1 show ?case by (cases "run_calls lb1 srv1 cs") simp
qed

text \<open>
  Claim C5, as the code has it. The predicate \<open>health_inv\<close> says that \<open>failCounter\<close> is in
  \<open>[0, maxFails]\<close> and that a \<open>Down\<close> server has \<open>failCounter = maxFails\<close>. It holds
  initially of every server whose \<open>maxFails\<close> is not negative, and of no other: a new
  server is \<open>Up\<close> with \<open>failCounter = 0\<close>. \<^verbatim>\<open>SetOnline\<close> and \<^verbatim>\<open>SetOffline\<close> keep it, each
  alone and in any sequence of calls.
\<close>

theorem health_inv_kept:
  "(health_inv (newServer so i u) \<longleftrightarrow> 0 \<le>s MaxFails so) \<and>
   (health_inv srv \<longrightarrow>
      health_inv (srv_of (SetOnline lb srv)) \<and>
      health_inv (srv_of (SetOffline lb srv now)) \<and>
      health_inv (srv_of (run_calls lb srv cs)))"
  by (simp add: health_inv_SetOnline health_inv_SetOffline health_inv_run_calls)
    (simp add: health_inv_def newServer_def)

theorem health_inv_kept_witness:
  "0 \<le>s MaxFails ex_opts \<and> health_inv ex_srv \<and>
   health_inv (srv_of (SetOnline ex_lb ex_srv)) \<and>
   health_inv (srv_of (SetOffline ex_lb ex_srv 5)) \<and>
   health_inv (srv_of (run_calls ex_lb ex_srv
     [SetOfflineCall 1, SetOfflineCall 3, SetOfflineCall 5, SetOnlineCall])) \<and>
   isDown (srv_of (run_calls ex_lb ex_srv [SetOfflineCall 1, SetOfflineCall 3, SetOfflineCall 5])) \<and>
   failCounter (srv_of (run_calls ex_lb ex_srv
     [SetOfflineCall 1, SetOfflineCall 3, SetOfflineCall 5])) = 3"
proof -
  have m: "0 \<le>s MaxFails ex_opts" by (simp add: ex_opts_def word_sle_eq)
  have r: "srv_of (run_calls ex_lb ex_srv [SetOfflineCall 1, SetOfflineCall 3, SetOfflineCall 5])
     = ex_down"
    by (simp add: ex_defs SetOffline_def time_Add_def time_After_def Let_def word_sless_alt)
  have h: "health_inv ex_srv"
    using health_inv_kept [of ex_opts 0 "''http://a''" ex_srv ex_lb 0 "[]"] m
    by (simp add: ex_srv_def)
  show ?thesis
    using m h r health_inv_kept [of ex_opts 0 "''http://a''" ex_srv ex_lb 5
        "[SetOfflineCall 1, SetOfflineCall 3, SetOfflineCall 5, SetOnlineCall]"]
    by (simp add: ex_down_def)
qed

text \<open>
  Claim C5 as the spec states it fails: a server with \<open>maxFails = -1\<close> is a primary whose
  health is tracked (\<open>maxFails\<close> is not 0), the interval \<open>[0, maxFails]\<close> is empty, and
  the predicate holds neither initially nor after a call.
\<close>

theorem health_inv_counterexample:
  "MaxFails (opts (newServer (ex_opts\<lparr>MaxFails := - 1\<rparr>) 0 ''http://c'')) \<noteq> 0 \<and>
   \<not> IsBackup (opts (newServer (ex_opts\<lparr>MaxFails := - 1\<rparr>) 0 ''http://c'')) \<and>
   \<not> isDown (newServer (ex_opts\<lparr>MaxFails := - 1\<rparr>) 0 ''http://c'') \<and>
   failCounter (newServer (ex_opts\<lparr>MaxFails := - 1\<rparr>) 0 ''http://c'') = 0 \<and>
   \<not> health_inv (newServer (ex_opts\<lparr>MaxFails := - 1\<rparr>) 0 ''http://c'') \<and>
   \<not> health_inv
     (srv_of (SetOnline ex_lb (newServer (ex_opts\<lparr>MaxFails := - 1\<rparr>) 0 ''http://c''))) \<and>
   \<not> health_inv
     (srv_of (SetOffline ex_lb (newServer (ex_opts\<lparr>MaxFails := - 1\<rparr>) 0 ''http://c'') 1))"
  by (simp add: ex_defs health_inv_def SetOnline_def SetOffline_def Let_def
      word_sle_eq word_sless_alt)

section \<open>\<^verbatim>\<open>SetOffline\<close> on a primary server\<close>

lemma sle_nonzero: "1 \<le>s (a::go_int) \<Longrightarrow> a + 1 \<noteq> 1"
  by (auto simp: word_sle_eq)

lemma two_sle: "2 \<le>s (m::go_int) \<Longrightarrow> m \<noteq> 0 \<and> m \<noteq> 1 \<and> 1 <s m \<and> 1 \<le>s m"
  by (auto simp: word_sle_eq word_sless_alt)




section \<open>A failure after the window has expired\<close>

lemma SetOffline_expired:
  assumes "\<not> IsBackup (opts srv)" and "2 \<le>s MaxFails (opts srv)" and "\<not> isDown srv"
    and "1 \<le>s failCounter srv" and "failCounter srv <s MaxFails (opts srv)"
    and "failTimestamp srv < now"
  shows "SetOffline lb srv now = (lb, srv\<lparr>failCounter := 1\<rparr>, [MtxLock, MtxUnlock])"
  using assms two_sle [OF assms(2)] sle_nonzero [OF assms(4)]
  by (simp add: SetOffline_def Let_def time_After_def)

lemma SetOffline_saturated:
  assumes "\<not> IsBackup (opts srv)" and "MaxFails (opts srv) \<noteq> 0"
    and "\<not> failCounter srv <s MaxFails (opts srv)"
  shows "SetOffline lb srv now = (lb, srv, [MtxLock, MtxUnlock])"
  using assms by (simp add: SetOffline_def)

text \<open>
  Claim C1. On a primary server with \<open>maxFails \<ge> 2\<close> that is \<open>Up\<close> with
  \<open>failCounter \<ge> 1\<close>, a \<^verbatim>\<open>SetOffline\<close> call after the recorded \<open>failTimestamp\<close> is
  claimed to put \<open>failCounter\<close> back to 1 and to set \<open>failTimestamp\<close> to
  \<open>now + failTimeout\<close>. The code does the first and not the second. Here the server has
  \<open>maxFails = 3\<close> and \<open>failTimeout = 10\<close>; a first failure at time 1 opens a window that
  ends at 11; after a second failure at time 25 the counter is 1 again and
  \<open>failTimestamp\<close> is still 11, not 35.
\<close>

theorem SetOffline_expired_window_example:
  "\<not> IsBackup (opts ex_srv) \<and> 2 \<le>s MaxFails (opts ex_srv) \<and>
   SetOffline ex_lb ex_srv 1 = (ex_lb, ex_one, [MtxLock, MtxUnlock]) \<and>
   \<not> isDown ex_one \<and> 1 \<le>s failCounter ex_one \<and> failTimestamp ex_one < 25 \<and>
   SetOffline ex_lb ex_one 25 = (ex_lb, ex_one, [MtxLock, MtxUnlock]) \<and>
   failCounter (srv_of (SetOffline ex_lb ex_one 25)) = 1 \<and>
   failTimestamp (srv_of (SetOffline ex_lb ex_one 25)) = 11 \<and>
   time_Add 25 (FailTimeout (opts ex_one)) = 35"
  by (simp add: ex_defs SetOffline_def Let_def time_Add_def time_After_def
      word_sle_eq word_sless_alt)

lemma run_offline_expired:
  assumes "\<not> IsBackup (opts srv)" and "2 \<le>s MaxFails (opts srv)" and "\<not> isDown srv"
    and "1 \<le>s failCounter srv" and "\<forall>now \<in> set nows. failTimestamp srv < now"
  shows "run_calls lb srv (map SetOfflineCall nows) =
    (lb,
     srv\<lparr>failCounter :=
       (if nows = [] \<or> \<not> failCounter srv <s MaxFails (opts srv) then failCounter srv else 1)\<rparr>,
     concat (map (\<lambda>now. [MtxLock, MtxUnlock]) nows))"
  using assms
proof (induction nows arbitrary: srv)
  case Nil
  then show ?case by simp
next
  case (Cons now nows)
  note m = two_sle [OF Cons.prems(2)]
  show ?case
  proof (cases "failCounter srv <s MaxFails (opts srv)")
    case True
    let ?s = "srv\<lparr>failCounter := 1\<rparr>"
    have step: "SetOffline lb srv now = (lb, ?s, [MtxLock, MtxUnlock])"
      using Cons.prems True by (intro SetOffline_expired) simp_all
    have one: "(1::go_int) \<le>s 1" by (simp add: word_sle_eq)
    have "run_calls lb ?s (map SetOfflineCall nows) =
      (lb, ?s\<lparr>failCounter :=
          (if nows = [] \<or> \<not> failCounter ?s <s MaxFails (opts ?s) then failCounter ?s else 1)\<rparr>,
       concat (map (\<lambda>now. [MtxLock, MtxUnlock]) nows))"
      using Cons.prems one by (intro Cons.IH) simp_all
    with step True show ?thesis by simp
  next
    case False
    have step: "SetOffline lb srv now = (lb, srv, [MtxLock, MtxUnlock])"
      using Cons.prems(1) m False by (intro SetOffline_saturated) simp_all
    have "run_calls lb srv (map SetOfflineCall nows) =
      (lb, srv\<lparr>failCounter :=
          (if nows = [] \<or> \<not> failCounter srv <s MaxFails (opts srv) then failCounter srv else 1)\<rparr>,
       concat (map (\<lambda>now. [MtxLock, MtxUnlock]) nows))"
      using Cons.prems by (intro Cons.IH) simp_all
    with step False show ?thesis by simp
  qed
qed

text \<open>
  Claim C10. A primary server with \<open>maxFails \<ge> 2\<close> is \<open>Up\<close> with \<open>failCounter \<ge> 1\<close>. Then
  \<^verbatim>\<open>SetOffline\<close> calls, however many, each at a time after the recorded \<open>failTimestamp\<close>
  and with no \<^verbatim>\<open>SetOnline\<close> between them, never mark it \<open>Down\<close>: the expired-window branch
  puts \<open>failCounter\<close> back to 1 and leaves \<open>failTimestamp\<close> as it was, so every later call
  finds the window expired again. The balancer is unchanged and no event is raised.
\<close>

theorem expired_window_never_down:
  assumes "\<not> IsBackup (opts srv)" and "2 \<le>s MaxFails (opts srv)" and "\<not> isDown srv"
    and "1 \<le>s failCounter srv" and "\<forall>now \<in> set nows. failTimestamp srv < now"
  shows "\<not> isDown (srv_of (run_calls lb srv (map SetOfflineCall nows))) \<and>
    failTimestamp (srv_of (run_calls lb srv (map SetOfflineCall nows))) = failTimestamp srv \<and>
    (nows \<noteq> [] \<and> failCounter srv <s MaxFails (opts srv) \<longrightarrow>
       failCounter (srv_of (run_calls lb srv (map SetOfflineCall nows))) = 1) \<and>
    lb_of (run_calls lb srv (map SetOfflineCall nows)) = lb \<and>
    (\<forall>c \<in> set (calls_of (run_calls lb srv (map SetOfflineCall nows))). \<not> is_RaiseEvent c)"
  using assms(3) by (auto simp: run_offline_expired [OF assms])

theorem expired_window_never_down_witness:
  "\<not> IsBackup (opts ex_one) \<and>
   2 \<le>s MaxFails (opts ex_one) \<and>
   \<not> isDown ex_one \<and>
   1 \<le>s failCounter ex_one \<and>
   list_all (\<lambda>now. failTimestamp ex_one < now) [25, 26, 27, 28] \<and>
   \<not> isDown (srv_of (run_calls ex_lb ex_one (map SetOfflineCall [25, 26, 27, 28]))) \<and>
   failTimestamp (srv_of (run_calls ex_lb ex_one (map SetOfflineCall [25, 26, 27, 28]))) = 11 \<and>
   failCounter (srv_of (run_calls ex_lb ex_one (map SetOfflineCall [25, 26, 27, 28]))) = 1"
proof -
  have b: "\<not> IsBackup (opts ex_one)" and m: "2 \<le>s MaxFails (opts ex_one)"
    and u: "\<not> isDown ex_one" and f: "1 \<le>s failCounter ex_one"
    by (simp_all add: ex_defs word_sle_eq)
  have t: "\<forall>now \<in> set [25, 26, 27, 28]. failTimestamp ex_one < now"
    by (simp add: ex_defs)
  have l: "failCounter ex_one <s MaxFails (opts ex_one)"
    and s: "failTimestamp ex_one = 11"
    by (simp_all add: ex_defs word_sless_alt)
  from expired_window_never_down [OF b m u f t, of ex_lb] b m u f l s
  show ?thesis by simp
qed

section \<open>Three failures with \<open>maxFails = 3\<close>\<close>

lemma three_word: "(0::go_int) <s 3 \<and> (1::go_int) <s 3 \<and> (2::go_int) <s 3"
  by (simp add: word_sless_alt)

lemma first_failure:
  assumes "\<not> IsBackup (opts srv)" and "MaxFails (opts srv) = 3" and "\<not> isDown srv"
    and "failCounter srv = 0"
  shows "SetOffline lb srv t1 =
    (lb, srv\<lparr>failCounter := 1, failTimestamp := t1 + sint (FailTimeout (opts srv))\<rparr>,
     [MtxLock, MtxUnlock])"
  using assms three_word by (simp add: SetOffline_def Let_def time_Add_def)

lemma second_failure:
  assumes "\<not> IsBackup (opts srv)" and "MaxFails (opts srv) = 3" and "\<not> isDown srv"
    and "failCounter srv = 1"
  shows "SetOffline lb srv t2 =
    (lb, srv\<lparr>failCounter := (if failTimestamp srv < t2 then 1 else 2)\<rparr>, [MtxLock, MtxUnlock])"
  using assms three_word by (simp add: SetOffline_def Let_def time_After_def)

lemma third_failure:
  assumes "\<not> IsBackup (opts srv)" and "MaxFails (opts srv) = 3" and "\<not> isDown srv"
    and "failCounter srv = 2" and "\<not> failTimestamp srv < t3"
  shows "isDown (srv_of (SetOffline lb srv t3))"
  using assms three_word by (simp add: SetOffline_def Let_def time_After_def)

text \<open>
  Claim C2, as the code has it. A primary server with \<open>maxFails = 3\<close> and
  \<open>failTimeout = T\<close> is \<open>Up\<close> with \<open>failCounter = 0\<close>. The window is counted from the first
  failure: three \<^verbatim>\<open>SetOffline\<close> calls of which the second and the third come no later than
  \<open>T\<close> after the first mark the server \<open>Down\<close>, at the third call. Three calls each more
  than \<open>T\<close> after the one before, with \<open>T \<ge> 0\<close>, leave \<open>failCounter\<close> at 1 after each call
  and the server \<open>Up\<close>.
\<close>

theorem three_failures:
  assumes "\<not> IsBackup (opts srv)" and "MaxFails (opts srv) = 3"
    and "FailTimeout (opts srv) = T" and "\<not> isDown srv" and "failCounter srv = 0"
  shows "(t2 \<le> t1 + sint T \<and> t3 \<le> t1 + sint T \<longrightarrow>
       \<not> isDown (srv_of (run_calls lb srv [SetOfflineCall t1, SetOfflineCall t2])) \<and>
       isDown (srv_of (run_calls lb srv
         [SetOfflineCall t1, SetOfflineCall t2, SetOfflineCall t3]))) \<and>
    (0 \<le> sint T \<and> t1 + sint T < t2 \<and> t2 + sint T < t3 \<longrightarrow>
       failCounter (srv_of (run_calls lb srv [SetOfflineCall t1])) = 1 \<and>
       \<not> isDown (srv_of (run_calls lb srv [SetOfflineCall t1])) \<and>
       failCounter (srv_of (run_calls lb srv [SetOfflineCall t1, SetOfflineCall t2])) = 1 \<and>
       \<not> isDown (srv_of (run_calls lb srv [SetOfflineCall t1, SetOfflineCall t2])) \<and>
       failCounter (srv_of (run_calls lb srv
         [SetOfflineCall t1, SetOfflineCall t2, SetOfflineCall t3])) = 1 \<and>
       \<not> isDown (srv_of (run_calls lb srv
         [SetOfflineCall t1, SetOfflineCall t2, SetOfflineCall t3])))"
proof -
  define s1 where "s1 = srv\<lparr>failCounter := 1, failTimestamp := t1 + sint T\<rparr>"
  define s2 where "s2 = s1\<lparr>failCounter := 2\<rparr>"
  have p1: "\<not> IsBackup (opts s1)" "MaxFails (opts s1) = 3" "\<not> isDown s1"
    "failCounter s1 = 1" "failTimestamp s1 = t1 + sint T"
    using assms by (simp_all add: s1_def)
  have p2: "\<not> IsBackup (opts s2)" "MaxFails (opts s2) = 3" "\<not> isDown s2"
    "failCounter s2 = 2" "failTimestamp s2 = t1 + sint T"
    using p1 by (simp_all add: s2_def)
  have e: "s1\<lparr>failCounter := 1\<rparr> = s1"
    by (simp add: s1_def)
  have 1: "SetOffline lb srv t1 = (lb, s1, [MtxLock, MtxUnlock])"
    using first_failure [OF assms(1,2,4,5)] assms(3) by (simp add: s1_def)
  have near2: "SetOffline lb s1 t2 = (lb, s2, [MtxLock, MtxUnlock])" if "t2 \<le> t1 + sint T"
    using second_failure [OF p1(1-4), of lb t2] p1(5) that by (simp add: s2_def)
  have near3: "isDown (srv_of (SetOffline lb s2 t3))" if "t3 \<le> t1 + sint T"
    using third_failure [OF p2(1-4), of t3 lb] p2(5) that by simp
  have far: "SetOffline lb s1 t = (lb, s1, [MtxLock, MtxUnlock])" if "t1 + sint T < t" for t
    using second_failure [OF p1(1-4), of lb t] p1(5) that e by simp
  have a: "\<not> isDown (srv_of (run_calls lb srv [SetOfflineCall t1, SetOfflineCall t2])) \<and>
       isDown (srv_of (run_calls lb srv
         [SetOfflineCall t1, SetOfflineCall t2, SetOfflineCall t3]))"
    if "t2 \<le> t1 + sint T" and "t3 \<le> t1 + sint T"
    using 1 near2 [OF that(1)] near3 [OF that(2)] p2(3)
    by (cases "SetOffline lb s2 t3") simp
  have b: "failCounter (srv_of (run_calls lb srv [SetOfflineCall t1])) = 1 \<and>
       \<not> isDown (srv_of (run_calls lb srv [SetOfflineCall t1])) \<and>
       failCounter (srv_of (run_calls lb srv [SetOfflineCall t1, SetOfflineCall t2])) = 1 \<and>
       \<not> isDown (srv_of (run_calls lb srv [SetOfflineCall t1, SetOfflineCall t2])) \<and>
       failCounter (srv_of (run_calls lb srv
         [SetOfflineCall t1, SetOfflineCall t2, SetOfflineCall t3])) = 1 \<and>
       \<not> isDown (srv_of (run_calls lb srv
         [SetOfflineCall t1, SetOfflineCall t2, SetOfflineCall t3]))"
    if "0 \<le> sint T" and "t1 + sint T < t2" and "t2 + sint T < t3"
  proof -
    from that have "t1 + sint T < t3" by simp
    from far [OF this] far [OF that(2)] 1 p1(3,4) show ?thesis by simp
  qed
  from a b show ?thesis by blast
qed

theorem three_failures_witness:
  "\<not> IsBackup (opts ex_srv) \<and> MaxFails (opts ex_srv) = 3 \<and> FailTimeout (opts ex_srv) = 10 \<and>
   \<not> isDown ex_srv \<and> failCounter ex_srv = 0 \<and>
   (3::int) \<le> 1 + sint (10::duration) \<and> (5::int) \<le> 1 + sint (10::duration) \<and>
   isDown (srv_of (run_calls ex_lb ex_srv [SetOfflineCall 1, SetOfflineCall 3, SetOfflineCall 5])) \<and>
   (0::int) \<le> sint (10::duration) \<and> (1::int) + sint (10::duration) < 12 \<and>
   (12::int) + sint (10::duration) < 23 \<and>
   failCounter (srv_of (run_calls ex_lb ex_srv
     [SetOfflineCall 1, SetOfflineCall 12, SetOfflineCall 23])) = 1 \<and>
   \<not> isDown (srv_of (run_calls ex_lb ex_srv
     [SetOfflineCall 1, SetOfflineCall 12, SetOfflineCall 23]))"
proof -
  have b: "\<not> IsBackup (opts ex_srv)" and m: "MaxFails (opts ex_srv) = 3"
    and t: "FailTimeout (opts ex_srv) = 10" and u: "\<not> isDown ex_srv"
    and f: "failCounter ex_srv = 0"
    by (simp_all add: ex_defs)
  have n: "(3::int) \<le> 1 + sint (10::duration) \<and> (5::int) \<le> 1 + sint (10::duration)"
    and s: "(0::int) \<le> sint (10::duration) \<and> (1::int) + sint (10::duration) < 12 \<and>
      (12::int) + sint (10::duration) < 23"
    by simp_all
  from three_failures [OF b m t u f, of 3 1 5 ex_lb] n
  have 1: "isDown (srv_of (run_calls ex_lb ex_srv
      [SetOfflineCall 1, SetOfflineCall 3, SetOfflineCall 5]))"
    by blast
  from three_failures [OF b m t u f, of 12 1 23 ex_lb] s
  have 2: "failCounter (srv_of (run_calls ex_lb ex_srv
       [SetOfflineCall 1, SetOfflineCall 12, SetOfflineCall 23])) = 1 \<and>
     \<not> isDown (srv_of (run_calls ex_lb ex_srv
       [SetOfflineCall 1, SetOfflineCall 12, SetOfflineCall 23]))"
    by blast
  from b m t u f n s 1 2 show ?thesis by blast
qed

text \<open>
  Claim C2 as the spec states it fails: with \<open>T = 10\<close>, the failures at 0, 9 and 18 are
  each less than \<open>T\<close> after the one before, and the third finds the window, which ended
  at 10, expired: the counter goes back to 1 and the server stays \<open>Up\<close>.
\<close>

theorem three_failures_counterexample:
  "\<not> IsBackup (opts ex_srv) \<and> MaxFails (opts ex_srv) = 3 \<and> \<not> isDown ex_srv \<and>
   failCounter ex_srv = 0 \<and>
   (9::int) - 0 < sint (FailTimeout (opts ex_srv)) \<and>
   (18::int) - 9 < sint (FailTimeout (opts ex_srv)) \<and>
   \<not> isDown (srv_of (run_calls ex_lb ex_srv
     [SetOfflineCall 0, SetOfflineCall 9, SetOfflineCall 18])) \<and>
   failCounter (srv_of (run_calls ex_lb ex_srv
     [SetOfflineCall 0, SetOfflineCall 9, SetOfflineCall 18])) = 1"
  by (simp add: ex_defs SetOffline_def Let_def time_Add_def time_After_def word_sless_alt)

section \<open>What the down event carries\<close>

text \<open>
  Claim C8, as the code has it. \<^verbatim>\<open>SetOffline\<close> has no parameter, and when it takes a server
  from \<open>Up\<close> to \<open>Down\<close> it calls \<^verbatim>\<open>raiseEvent\<close> once, after the unlock, with two arguments:
  the event type \<open>ServerDownEvent\<close> and the server. When it makes no such transition it
  raises no event.
\<close>

theorem down_event_arguments:
  "(\<not> isDown srv \<and> isDown (srv_of (SetOffline lb srv now)) \<longrightarrow>
      calls_of (SetOffline lb srv now) =
        [MtxLock, MtxUnlock, RaiseEvent ServerDownEvent (srv_of (SetOffline lb srv now))]) \<and>
   (\<not> (\<not> isDown srv \<and> isDown (srv_of (SetOffline lb srv now))) \<longrightarrow>
      (\<forall>c \<in> set (calls_of (SetOffline lb srv now)). \<not> is_RaiseEvent c))"
  by (simp add: SetOffline_def Let_def)

theorem down_event_arguments_witness:
  "\<not> isDown ex_two \<and>
   isDown (srv_of (SetOffline ex_lb_two ex_two 5)) \<and>
   calls_of (SetOffline ex_lb_two ex_two 5) =
     [MtxLock, MtxUnlock, RaiseEvent ServerDownEvent ex_down] \<and>
   isDown ex_down \<and>
   list_all (\<lambda>c. \<not> is_RaiseEvent c) (calls_of (SetOffline ex_lb_down ex_down 7))"
proof -
  have u: "\<not> isDown ex_two" and d: "isDown ex_down"
    by (simp_all add: ex_defs)
  have r: "srv_of (SetOffline ex_lb_two ex_two 5) = ex_down"
    by (simp add: ex_defs SetOffline_def Let_def time_Add_def time_After_def word_sless_alt)
  have d': "isDown (srv_of (SetOffline ex_lb_two ex_two 5))"
    using r d by simp
  have 1: "calls_of (SetOffline ex_lb_two ex_two 5) =
     [MtxLock, MtxUnlock, RaiseEvent ServerDownEvent ex_down]"
    using down_event_arguments [of ex_two ex_lb_two 5] u d' r by simp
  have 2: "list_all (\<lambda>c. \<not> is_RaiseEvent c) (calls_of (SetOffline ex_lb_down ex_down 7))"
    using down_event_arguments [of ex_down ex_lb_down 7] d by (simp add: list_all_iff)
  from u d d' 1 2 show ?thesis by simp
qed

text \<open>
  Claim C8 as the spec states it fails: whatever error the caller has observed, the down
  event is the same pair of an event type and a server, so no error can be read off it.
  \<open>ErrCanceled\<close> and \<open>ErrTimeout\<close> are the two errors of the HTTP client.
\<close>

theorem down_event_error_counterexample:
  "calls_of (SetOffline ex_lb_two ex_two 5) =
     [MtxLock, MtxUnlock, RaiseEvent ServerDownEvent ex_down] \<and>
   \<not> (\<exists>carried :: string Call \<Rightarrow> string.
        carried (RaiseEvent ServerDownEvent ex_down) = ''canceled'' \<and>
        carried (RaiseEvent ServerDownEvent ex_down) = ''timeout'')"
  by (simp add: ex_defs SetOffline_def Let_def time_Add_def time_After_def word_sless_alt)

section \<open>The count of primary servers that are \<open>Up\<close>\<close>

lemma sint_add1: "sint (w::go_int) < 2 ^ 63 - 1 \<Longrightarrow> sint (w + 1) = sint w + 1"
  using sint_ge [of w] by (simp add: sint_word_ariths signed_take_bit_int_eq_self)

lemma sint_sub1: "- (2 ^ 63) < sint (w::go_int) \<Longrightarrow> sint (w - 1) = sint w - 1"
  using sint_lt [of w] by (simp add: sint_word_ariths signed_take_bit_int_eq_self)

lemma filter_update_count:
  "i < length xs \<Longrightarrow>
   int (length (filter P (xs[i := y]))) =
   int (length (filter P xs)) - (if P (xs ! i) then 1 else 0) + (if P y then 1 else 0)"
proof (induction xs arbitrary: i)
  case Nil
  then show ?case by simp
next
  case (Cons x xs)
  show ?case
  proof (cases i)
    case 0
    then show ?thesis by simp
  next
    case (Suc j)
    with Cons.prems have "j < length xs" by simp
    from Cons.IH [OF this] Suc show ?thesis by (auto split: if_splits)
  qed
qed

lemma do_call_transition:
  "primaryOnlineCount (lb_of (do_call lb srv c)) =
     (if isDown srv \<and> \<not> isDown (srv_of (do_call lb srv c)) then primaryOnlineCount lb + 1
      else if \<not> isDown srv \<and> isDown (srv_of (do_call lb srv c)) then primaryOnlineCount lb - 1
      else primaryOnlineCount lb)"
  by (cases c) (simp_all add: SetOnline_def SetOffline_def Let_def)

lemma do_call_opts: "opts (srv_of (do_call lb srv c)) = opts srv"
  using do_call_frame [of lb srv c] by auto

lemma do_call_groups:
  "primaryGroup (lb_of (do_call lb srv c)) = primaryGroup lb \<and>
   backupGroup (lb_of (do_call lb srv c)) = backupGroup lb"
  using do_call_frame [of lb srv c] by auto


lemma call_at_backup:
  assumes "groups_by_flag lb" and "deref lb (BackupRef i) = Some srv"
  shows "call_at lb (BackupRef i) c = Some (lb, [])"
proof -
  from assms(2) have "srv \<in> set (srvList (backupGroup lb))"
    by (auto split: if_splits)
  with assms(1) have "IsBackup (opts srv)"
    by (simp add: groups_by_flag_def)
  then have "do_call lb srv c = (lb, srv, [])"
    by (simp add: do_call_disabled)
  with assms(2) show ?thesis
    by (simp add: call_at_def assign_same del: deref.simps assign.simps)
qed

lemma call_at_primary:
  fixes lb :: "'a LoadBalancer" and srv :: "'a Server" and c :: Request and i :: nat
  assumes gf: "groups_by_flag lb" and ci: "count_inv lb"
    and len: "length (srvList (primaryGroup lb)) < 2 ^ 63"
    and d: "deref lb (PrimaryRef i) = Some srv"
  defines "srv' \<equiv> srv_of (do_call lb srv c)"
  defines "lb' \<equiv> assign (lb_of (do_call lb srv c)) (PrimaryRef i) srv'"
  shows "call_at lb (PrimaryRef i) c = Some (lb', calls_of (do_call lb srv c))"
    and "deref lb' (PrimaryRef i) = Some srv'"
    and "count_inv lb'" and "groups_by_flag lb'"
    and "length (srvList (primaryGroup lb')) = length (srvList (primaryGroup lb))"
    and "sint (primaryOnlineCount lb') = sint (primaryOnlineCount lb) +
      (if isDown srv \<and> \<not> isDown srv' then 1
       else if \<not> isDown srv \<and> isDown srv' then - 1 else 0)"
proof -
  let ?xs = "srvList (primaryGroup lb)"
  let ?up = "\<lambda>s::'a Server. \<not> isDown s"
  from d have i: "i < length ?xs" and s: "srv = ?xs ! i"
    by (auto split: if_splits)
  have g: "primaryGroup (lb_of (do_call lb srv c)) = primaryGroup lb"
    "backupGroup (lb_of (do_call lb srv c)) = backupGroup lb"
    using do_call_groups [of lb srv c] by simp_all
  have xs': "srvList (primaryGroup lb') = ?xs[i := srv']"
    and bk': "backupGroup lb' = backupGroup lb"
    and p': "primaryOnlineCount lb' = primaryOnlineCount (lb_of (do_call lb srv c))"
    using g by (simp_all add: lb'_def)
  show "call_at lb (PrimaryRef i) c = Some (lb', calls_of (do_call lb srv c))"
    using d by (cases "do_call lb srv c") (simp add: call_at_def lb'_def srv'_def del: deref.simps)
  show "deref lb' (PrimaryRef i) = Some srv'"
    using i xs' by simp
  show "length (srvList (primaryGroup lb')) = length ?xs"
    using xs' by simp
  have "set (?xs[i := srv']) \<subseteq> insert srv' (set ?xs)"
    by (rule set_update_subset_insert)
  moreover have "opts srv' = opts srv"
    by (simp add: srv'_def do_call_opts)
  moreover have "srv \<in> set ?xs"
    using i s by simp
  ultimately show "groups_by_flag lb'"
    using gf xs' bk' by (auto simp: groups_by_flag_def)
  have cnt: "int (onlinePrimaries lb') =
      int (onlinePrimaries lb) - (if ?up srv then 1 else 0) + (if ?up srv' then 1 else 0)"
    using filter_update_count [OF i, of ?up srv'] xs' s by (simp add: onlinePrimaries_def)
  have le: "onlinePrimaries lb' \<le> length ?xs"
    using xs' length_filter_le [of ?up "?xs[i := srv']"] by (simp add: onlinePrimaries_def)
  have c0: "sint (primaryOnlineCount lb) = int (onlinePrimaries lb)"
    using ci by (simp add: count_inv_def)
  have tr: "primaryOnlineCount lb' =
     (if isDown srv \<and> \<not> isDown srv' then primaryOnlineCount lb + 1
      else if \<not> isDown srv \<and> isDown srv' then primaryOnlineCount lb - 1
      else primaryOnlineCount lb)"
    using do_call_transition [of lb srv c] p' by (simp add: srv'_def)
  have both: "sint (primaryOnlineCount lb') = int (onlinePrimaries lb') \<and>
    sint (primaryOnlineCount lb') = sint (primaryOnlineCount lb) +
      (if isDown srv \<and> \<not> isDown srv' then 1
       else if \<not> isDown srv \<and> isDown srv' then - 1 else 0)"
  proof (cases "isDown srv \<and> \<not> isDown srv'")
    case True
    with cnt have n: "int (onlinePrimaries lb') = int (onlinePrimaries lb) + 1" by simp
    with le len c0 have "sint (primaryOnlineCount lb) < 2 ^ 63 - 1" by simp
    from sint_add1 [OF this] True tr n c0 show ?thesis by simp
  next
    case False
    show ?thesis
    proof (cases "\<not> isDown srv \<and> isDown srv'")
      case True
      with cnt have n: "int (onlinePrimaries lb') = int (onlinePrimaries lb) - 1" by simp
      from c0 have "- (2 ^ 63) < sint (primaryOnlineCount lb)" by simp
      from sint_sub1 [OF this] True tr n c0 show ?thesis by simp
    next
      case no: False
      with False have same: "isDown srv' = isDown srv" by blast
      with cnt have "int (onlinePrimaries lb') = int (onlinePrimaries lb)" by simp
      with same tr c0 show ?thesis by simp
    qed
  qed
  from both show "count_inv lb'"
    by (simp add: count_inv_def)
  from both show "sint (primaryOnlineCount lb') = sint (primaryOnlineCount lb) +
      (if isDown srv \<and> \<not> isDown srv' then 1
       else if \<not> isDown srv \<and> isDown srv' then - 1 else 0)"
    by simp
qed

text \<open>
  Claim C6. In a balancer whose groups hold the servers \<^verbatim>\<open>Add\<close> put there (primaries in
  the primary group, backups in the backup group; a Go slice has fewer than \<open>2\<^sup>6\<^sup>3\<close>
  elements), let \<open>primaryOnlineCount\<close> be the number of servers of the primary group that
  are not \<open>Down\<close>. A \<^verbatim>\<open>SetOnline\<close> or \<^verbatim>\<open>SetOffline\<close> call on any of its servers keeps
  this so: the counter grows by exactly one when the call takes the server from \<open>Down\<close>
  to \<open>Up\<close>, falls by exactly one when it takes it from \<open>Up\<close> to \<open>Down\<close>, and is unchanged
  when the call makes no transition.
\<close>

theorem primaryOnlineCount_kept:
  assumes "groups_by_flag lb" and "count_inv lb"
    and "length (srvList (primaryGroup lb)) < 2 ^ 63"
    and "deref lb r = Some srv"
  shows "(case call_at lb r c of
      None \<Rightarrow> False
    | Some (lb', tr) \<Rightarrow>
        count_inv lb' \<and> groups_by_flag lb' \<and>
        length (srvList (primaryGroup lb')) = length (srvList (primaryGroup lb)) \<and>
        (case deref lb' r of
           None \<Rightarrow> False
         | Some srv' \<Rightarrow>
             srv' = srv_of (do_call lb srv c) \<and>
             sint (primaryOnlineCount lb') = sint (primaryOnlineCount lb) +
               (if isDown srv \<and> \<not> isDown srv' then 1
                else if \<not> isDown srv \<and> isDown srv' then - 1 else 0)))"
proof (cases r)
  case (PrimaryRef i)
  note p = call_at_primary [OF assms(1-3) assms(4) [unfolded PrimaryRef], of c]
  from p(1) p(2) p(3) p(4) p(5) p(6) PrimaryRef show ?thesis
    by (simp del: deref.simps assign.simps)
next
  case (BackupRef i)
  from call_at_backup [OF assms(1) assms(4) [unfolded BackupRef], of c]
  have 1: "call_at lb r c = Some (lb, [])"
    using BackupRef by simp
  from assms(4) BackupRef have "srv \<in> set (srvList (backupGroup lb))"
    by (auto split: if_splits)
  with assms(1) have "IsBackup (opts srv)"
    by (simp add: groups_by_flag_def)
  then have 2: "do_call lb srv c = (lb, srv, [])"
    by (simp add: do_call_disabled)
  from 1 2 assms show ?thesis
    by (simp del: deref.simps)
qed

theorem primaryOnlineCount_kept_witness:
  "groups_by_flag ex_lb_down \<and> count_inv ex_lb_down \<and>
   length (srvList (primaryGroup ex_lb_down)) < 2 ^ 63 \<and>
   deref ex_lb_down (PrimaryRef 0) = Some ex_down \<and>
   (case call_at ex_lb_down (PrimaryRef 0) SetOnlineCall of
      None \<Rightarrow> False
    | Some (lb', tr) \<Rightarrow>
        count_inv lb' \<and> groups_by_flag lb' \<and> sint (primaryOnlineCount lb') = 1 \<and>
        onlinePrimaries lb' = 1) \<and>
   groups_by_flag ex_lb_two \<and> count_inv ex_lb_two \<and>
   length (srvList (primaryGroup ex_lb_two)) < 2 ^ 63 \<and>
   deref ex_lb_two (PrimaryRef 0) = Some ex_two \<and>
   (case call_at ex_lb_two (PrimaryRef 0) (SetOfflineCall 5) of
      None \<Rightarrow> False
    | Some (lb', tr) \<Rightarrow>
        count_inv lb' \<and> groups_by_flag lb' \<and> sint (primaryOnlineCount lb') = 0 \<and>
        onlinePrimaries lb' = 0)"
proof -
  have g: "groups_by_flag ex_lb_down" and c: "count_inv ex_lb_down"
    and l: "length (srvList (primaryGroup ex_lb_down)) < 2 ^ 63"
    and d: "deref ex_lb_down (PrimaryRef 0) = Some ex_down"
    by (simp_all add: ex_defs groups_by_flag_def count_inv_def onlinePrimaries_def)
  have e: "srv_of (do_call ex_lb_down ex_down SetOnlineCall) = ex_srv\<lparr>failTimestamp := 15\<rparr>"
    by (simp add: ex_defs SetOnline_def Let_def)
  have u: "isDown ex_down" "\<not> isDown (ex_srv\<lparr>failTimestamp := 15\<rparr>)"
    "sint (primaryOnlineCount ex_lb_down) = 0"
    by (simp_all add: ex_defs)
  from primaryOnlineCount_kept [OF g c l d, of SetOnlineCall] e u
  have 1: "case call_at ex_lb_down (PrimaryRef 0) SetOnlineCall of
      None \<Rightarrow> False
    | Some (lb', tr) \<Rightarrow>
        count_inv lb' \<and> groups_by_flag lb' \<and> sint (primaryOnlineCount lb') = 1 \<and>
        onlinePrimaries lb' = 1"
    by (auto simp: count_inv_def split: option.splits prod.splits)
  have g': "groups_by_flag ex_lb_two" and c': "count_inv ex_lb_two"
    and l': "length (srvList (primaryGroup ex_lb_two)) < 2 ^ 63"
    and d': "deref ex_lb_two (PrimaryRef 0) = Some ex_two"
    by (simp_all add: ex_defs groups_by_flag_def count_inv_def onlinePrimaries_def)
  have e': "srv_of (do_call ex_lb_two ex_two (SetOfflineCall 5)) = ex_down"
    by (simp add: ex_defs SetOffline_def Let_def time_Add_def time_After_def word_sless_alt)
  have u': "isDown ex_down" "\<not> isDown ex_two" "sint (primaryOnlineCount ex_lb_two) = 1"
    by (simp_all add: ex_defs)
  from primaryOnlineCount_kept [OF g' c' l' d', of "SetOfflineCall 5"] e' u'
  have 2: "case call_at ex_lb_two (PrimaryRef 0) (SetOfflineCall 5) of
      None \<Rightarrow> False
    | Some (lb', tr) \<Rightarrow>
        count_inv lb' \<and> groups_by_flag lb' \<and> sint (primaryOnlineCount lb') = 0 \<and>
        onlinePrimaries lb' = 0"
    by (auto simp: count_inv_def split: option.splits prod.splits)
  from g c l d 1 g' c' l' d' 2 show ?thesis by blast
qed

end
